theory Spec2Isabelle
  imports Main
begin

section \<open>JavaScript values and plain objects\<close>

text \<open>
  The values a query-result row can hold (\<open>DataRecordValue\<close>) and the values the
  aggregation of \<open>transformProps\<close> can produce from them. Numbers are modelled as exact
  integers: rounding, infinities and the exponent notation of large numbers are outside the
  model; \<open>VNaN\<close> is kept because \<open>undefined + 1\<close> yields it. \<open>Date\<close> values do not occur
  in rows decoded from JSON and are left out.
\<close>

datatype jsval = VUndefined | VNull | VBool bool | VNaN | VNum int | VStr string

text \<open>Truthiness, as used by \<open>!x\<close>, \<open>x || 0\<close> and \<open>if (x)\<close>.\<close>

fun truthy :: "jsval \<Rightarrow> bool" where
  "truthy VUndefined = False"
| "truthy VNull = False"
| "truthy (VBool b) = b"
| "truthy VNaN = False"
| "truthy (VNum n) = (n \<noteq> 0)"
| "truthy (VStr s) = (s \<noteq> [])"

text \<open>\<open>a || b\<close>\<close>

definition js_or :: "jsval \<Rightarrow> jsval \<Rightarrow> jsval" where
  "js_or a b = (if truthy a then a else b)"

text \<open>\<open>typeof v === 'number'\<close>\<close>

fun typeof_number :: "jsval \<Rightarrow> bool" where
  "typeof_number (VNum n) = True"
| "typeof_number VNaN = True"
| "typeof_number v = False"

text \<open>Decimal rendering of integers, for \<open>ToString\<close> of a number.\<close>

definition digit_char :: "nat \<Rightarrow> char" where
  "digit_char d = ''0123456789'' ! (d mod 10)"

fun string_of_nat :: "nat \<Rightarrow> string" where
  "string_of_nat n =
     (if n < 10 then [digit_char n] else string_of_nat (n div 10) @ [digit_char (n mod 10)])"

declare string_of_nat.simps [simp del]

definition string_of_int :: "int \<Rightarrow> string" where
  "string_of_int i = (if i < 0 then CHR ''-'' # string_of_nat (nat (- i)) else string_of_nat (nat i))"

text \<open>\<open>ToString\<close> on the values of the model.\<close>

fun to_string :: "jsval \<Rightarrow> string" where
  "to_string VUndefined = ''undefined''"
| "to_string VNull = ''null''"
| "to_string (VBool b) = (if b then ''true'' else ''false'')"
| "to_string VNaN = ''NaN''"
| "to_string (VNum n) = string_of_int n"
| "to_string (VStr s) = s"

text \<open>\<open>ToNumber\<close> on the non-string values; \<open>None\<close> stands for NaN.\<close>

fun to_number :: "jsval \<Rightarrow> int option" where
  "to_number VUndefined = None"
| "to_number VNull = Some 0"
| "to_number (VBool b) = Some (if b then 1 else 0)"
| "to_number VNaN = None"
| "to_number (VNum n) = Some n"
| "to_number (VStr s) = None"

fun is_string :: "jsval \<Rightarrow> bool" where
  "is_string (VStr s) = True"
| "is_string v = False"

text \<open>
  The binary \<open>+\<close>: string concatenation as soon as one operand is a string, numeric
  addition otherwise. \<open>to_number\<close> is only reached with both operands non-strings.
\<close>

definition js_add :: "jsval \<Rightarrow> jsval \<Rightarrow> jsval" where
  "js_add a b =
     (if is_string a \<or> is_string b then VStr (to_string a @ to_string b)
      else (case (to_number a, to_number b) of
              (Some x, Some y) \<Rightarrow> VNum (x + y)
            | _ \<Rightarrow> VNaN))"

subsection \<open>\<open>Array.prototype.join\<close> and \<open>String.prototype.split\<close>\<close>

text \<open>\<open>join\<close> renders \<open>null\<close> and \<open>undefined\<close> as the empty string, anything else by \<open>ToString\<close>.\<close>

fun join_elem :: "jsval \<Rightarrow> string" where
  "join_elem VUndefined = []"
| "join_elem VNull = []"
| "join_elem v = to_string v"

fun join_strings :: "string \<Rightarrow> string list \<Rightarrow> string" where
  "join_strings sep [] = []"
| "join_strings sep [x] = x"
| "join_strings sep (x # y # ys) = x @ sep @ join_strings sep (y # ys)"

definition js_join :: "string \<Rightarrow> jsval list \<Rightarrow> string" where
  "js_join sep vs = join_strings sep (map join_elem vs)"

text \<open>\<open>s.split(c)\<close> for a one-character separator: always at least one piece.\<close>

fun split_char :: "char \<Rightarrow> string \<Rightarrow> string list" where
  "split_char c [] = [[]]"
| "split_char c (x # xs) =
     (if x = c then [] # split_char c xs
      else (case split_char c xs of
              p # ps \<Rightarrow> (x # p) # ps
            | [] \<Rightarrow> [[x]]))"

text \<open>\<open>arr[index]\<close> on an array of strings: \<open>undefined\<close> out of range.\<close>

definition array_get :: "string list \<Rightarrow> nat \<Rightarrow> jsval" where
  "array_get xs i = (if i < length xs then VStr (xs ! i) else VUndefined)"

subsection \<open>Plain objects used as dictionaries\<close>

text \<open>
  An object literal \<open>{}\<close> that the code fills by assignment is an association list in
  insertion order with one entry per key. Only own properties are modelled: names inherited
  from \<open>Object.prototype\<close> (such as \<open>constructor\<close>) are not.
\<close>

type_synonym 'v obj = "(string \<times> 'v) list"

text \<open>\<open>o[k] = v\<close>: overwrite in place, or append a new property.\<close>

fun obj_set :: "'v obj \<Rightarrow> string \<Rightarrow> 'v \<Rightarrow> 'v obj" where
  "obj_set [] k v = [(k, v)]"
| "obj_set (p # ps) k v = (if fst p = k then (k, v) # ps else p # obj_set ps k v)"

text \<open>\<open>o[k]\<close> on an object of values: \<open>undefined\<close> for a missing property.\<close>

definition obj_get :: "jsval obj \<Rightarrow> string \<Rightarrow> jsval" where
  "obj_get ob k = (case map_of ob k of Some v \<Rightarrow> v | None \<Rightarrow> VUndefined)"

text \<open>
  \<open>Object.keys(o)\<close>: the keys that are array indices (canonical decimal numerals below
  \<open>2^32 - 1\<close>) first, in ascending numeric order, then every other key in insertion order.
\<close>

definition is_digit :: "char \<Rightarrow> bool" where
  "is_digit c = (c \<in> set ''0123456789'')"

definition digit_val :: "char \<Rightarrow> nat" where
  "digit_val c = length (takeWhile (\<lambda>d. d \<noteq> c) ''0123456789'')"

definition nat_of_digits :: "string \<Rightarrow> nat" where
  "nat_of_digits s = foldl (\<lambda>n c. 10 * n + digit_val c) 0 s"

definition array_index :: "string \<Rightarrow> nat option" where
  "array_index s =
     (if s \<noteq> [] \<and> list_all is_digit s \<and> (s = ''0'' \<or> hd s \<noteq> CHR ''0'')
         \<and> nat_of_digits s < 4294967295
      then Some (nat_of_digits s) else None)"

definition index_of_key :: "string \<Rightarrow> nat" where
  "index_of_key k = (case array_index k of Some n \<Rightarrow> n | None \<Rightarrow> 0)"

definition obj_keys :: "'v obj \<Rightarrow> string list" where
  "obj_keys ob =
     sort_key index_of_key (filter (\<lambda>k. array_index k \<noteq> None) (map fst ob))
     @ filter (\<lambda>k. array_index k = None) (map fst ob)"

section \<open>\<open>transformProps\<close>: the inputs\<close>

type_synonym DataRecord = "jsval obj"

datatype GenericDataType = NUMERIC | STRING | TEMPORAL | BOOLEAN

text \<open>A configured metric is a saved metric's name or an ad-hoc metric carrying a label.\<close>

datatype metric = SavedMetric string | AdhocMetric string

text \<open>\<open>formData.metrics\<close>: normally an array; anything else is wrapped as it is.\<close>

datatype metrics_field = MetricArray "metric list" | MetricSingle string

record formData =
  groupbyRows :: "string list"
  groupbyColumns :: "string list"
  metrics :: metrics_field
  dateFormat :: "string option"
  transposePivot :: bool

record queriesData =
  colnames :: "string list"
  coltypes :: "GenericDataType list"
  data :: "DataRecord list"

text \<open>
  The formatters the code can select. They come from the host library, so a formatter is
  represented by how it was obtained: \<open>getTimeFormatterForGranularity(g)\<close>,
  \<open>getTimeFormatter(format)\<close>, or the global \<open>String\<close>.
\<close>

datatype DateFormatter = ForGranularity string | TimeFormatter string | StringFn

text \<open>Library constants: \<open>smartDateFormatter.id\<close> and \<open>TimeFormats.DATABASE_DATETIME\<close>.\<close>

definition smartDateFormatter_id :: string where
  "smartDateFormatter_id = ''smart_date''"

definition DATABASE_DATETIME :: string where
  "DATABASE_DATETIME = ''%Y-%m-%d %H:%M:%S''"

section \<open>\<open>transformProps\<close>: the computation\<close>

definition isNumeric :: "string \<Rightarrow> DataRecord list \<Rightarrow> bool" where
  "isNumeric key ds =
     list_all (\<lambda>r. obj_get r key = VNull \<or> obj_get r key = VUndefined
                    \<or> typeof_number (obj_get r key)) ds"

fun metric_label :: "metric \<Rightarrow> string" where
  "metric_label (SavedMetric name) = name"
| "metric_label (AdhocMetric label) = label"

fun formattedMetrics :: "metrics_field \<Rightarrow> string list" where
  "formattedMetrics (MetricArray ms) = map metric_label ms"
| "formattedMetrics (MetricSingle m) = [m]"

record fields_cfg =
  rows :: "string list"
  columns :: "string list"
  fvalues :: "string list"
  valueInCols :: bool

definition mk_fields :: "formData \<Rightarrow> fields_cfg" where
  "mk_fields fd =
     \<lparr> rows = (if transposePivot fd then groupbyColumns fd else groupbyRows fd),
       columns = (if transposePivot fd then groupbyRows fd else groupbyColumns fd),
       fvalues = formattedMetrics (metrics fd),
       valueInCols = True \<rparr>"

subsection \<open>Temporal formatters\<close>

text \<open>\<open>colnames.filter((colname, index) => coltypes[index] === TEMPORAL)\<close>\<close>

definition temporalColnames :: "string list \<Rightarrow> GenericDataType list \<Rightarrow> string list" where
  "temporalColnames cns cts =
     map fst (filter (\<lambda>(colname, index). index < length cts \<and> cts ! index = TEMPORAL)
                     (zip cns [0 ..< length cns]))"

text \<open>
  The body of the \<open>reduce\<close> callback up to \<open>if (formatter)\<close>: the formatter chosen for
  one temporal column, \<open>None\<close> when \<open>formatter\<close> stays \<open>undefined\<close>. The granularity is
  the result of \<open>extractTimegrain(rawFormData)\<close>; like any string it is truthy when
  present and non-empty.
\<close>

definition select_formatter ::
  "string option \<Rightarrow> string option \<Rightarrow> DataRecord list \<Rightarrow> string \<Rightarrow> DateFormatter option" where
  "select_formatter dateFmt granularity ds temporalColname =
     (if dateFmt = Some smartDateFormatter_id then
        (case granularity of
           Some g \<Rightarrow>
             if g \<noteq> [] then Some (ForGranularity g)
             else if isNumeric temporalColname ds then Some (TimeFormatter DATABASE_DATETIME)
             else Some StringFn
         | None \<Rightarrow>
             if isNumeric temporalColname ds then Some (TimeFormatter DATABASE_DATETIME)
             else Some StringFn)
      else (case dateFmt of
              Some f \<Rightarrow> if f \<noteq> [] then Some (TimeFormatter f) else None
            | None \<Rightarrow> None))"

definition dateFormatters ::
  "string option \<Rightarrow> string option \<Rightarrow> queriesData \<Rightarrow> DateFormatter obj" where
  "dateFormatters dateFmt granularity q =
     fold (\<lambda>temporalColname acc.
             case select_formatter dateFmt granularity (data q) temporalColname of
               Some formatter \<Rightarrow> obj_set acc temporalColname formatter
             | None \<Rightarrow> acc)
          (temporalColnames (colnames q) (coltypes q)) []"

subsection \<open>Reshaping the rows\<close>

text \<open>
  \<open>formatter(new Date(v))\<close> is computed by the host library: the parameter \<open>fmt\<close> stands
  for it, giving the string a formatter produces from the raw value \<open>v\<close>.
\<close>

definition transformItem ::
  "(DateFormatter \<Rightarrow> jsval \<Rightarrow> string) \<Rightarrow> DateFormatter obj \<Rightarrow> DataRecord \<Rightarrow> DataRecord" where
  "transformItem fmt dfs item =
     (let temporalColumns = obj_keys dfs;
          formatted =
            fold (\<lambda>temporalColname t.
                    case map_of dfs temporalColname of
                      Some formatter \<Rightarrow>
                        obj_set t temporalColname (VStr (fmt formatter (obj_get item temporalColname)))
                    | None \<Rightarrow> obj_set t temporalColname (obj_get item temporalColname))
                 temporalColumns []
      in fold (\<lambda>colname t.
                 if colname \<notin> set temporalColumns then obj_set t colname (obj_get item colname)
                 else t)
              (obj_keys item) formatted)"

definition transformedData ::
  "(DateFormatter \<Rightarrow> jsval \<Rightarrow> string) \<Rightarrow> DateFormatter obj \<Rightarrow> DataRecord list \<Rightarrow> DataRecord list" where
  "transformedData fmt dfs ds = map (transformItem fmt dfs) ds"

subsection \<open>Totals\<close>

text \<open>
  The row-total and the column-total blocks of the source are the same code over
  \<open>groupbyRows\<close> and over \<open>groupbyColumns\<close>; the functions below take the dimension list
  as \<open>dims\<close> and are instantiated twice in \<open>transformProps\<close>.
\<close>

definition groupKey :: "string list \<Rightarrow> DataRecord \<Rightarrow> string" where
  "groupKey dims item = js_join ''-'' (map (\<lambda>d. obj_get item d) dims)"

text \<open>The body of \<open>transformedData.forEach\<close> for one row.\<close>

definition totals_step :: "string list \<Rightarrow> string list \<Rightarrow> DataRecord \<Rightarrow> jsval obj \<Rightarrow> jsval obj" where
  "totals_step dims ms item totalsMap =
     (let key = groupKey dims item;
          initialised = (if \<not> truthy (obj_get totalsMap key)
                         then obj_set totalsMap key (VNum 0) else totalsMap)
      in fold (\<lambda>metric m.
                 obj_set m key (js_add (obj_get m key) (js_or (obj_get item metric) (VNum 0))))
              ms initialised)"

definition totalsMap :: "string list \<Rightarrow> string list \<Rightarrow> DataRecord list \<Rightarrow> jsval obj" where
  "totalsMap dims ms ds = fold (totals_step dims ms) ds []"

text \<open>The record built for one group key: the dimension fields, then the metric fields.\<close>

definition totalsItem :: "string list \<Rightarrow> string list \<Rightarrow> jsval obj \<Rightarrow> string \<Rightarrow> DataRecord" where
  "totalsItem dims ms tm key =
     (let dimFields =
            fold (\<lambda>(d, index) t. obj_set t d (array_get (split_char CHR ''-'' key) index))
                 (zip dims [0 ..< length dims]) []
      in fold (\<lambda>metric t. obj_set t metric (obj_get tm key)) ms dimFields)"

definition totalsData :: "string list \<Rightarrow> string list \<Rightarrow> DataRecord list \<Rightarrow> DataRecord list" where
  "totalsData dims ms ds =
     (let tm = totalsMap dims ms ds in map (totalsItem dims ms tm) (obj_keys tm))"

definition sumOfRowTotals :: "string list \<Rightarrow> DataRecord list \<Rightarrow> DataRecord" where
  "sumOfRowTotals ms rowTotalsData =
     fold (\<lambda>item sum.
             fold (\<lambda>metric s.
                     obj_set s metric (js_add (js_or (obj_get s metric) (VNum 0)) (obj_get item metric)))
                  ms sum)
          rowTotalsData []"

subsection \<open>The result\<close>

text \<open>
  The props that depend on the computation; \<open>width\<close>, \<open>height\<close>, \<open>meta\<close>, the total
  flags and the rename labels are passed through unchanged and are left out.
\<close>

record props =
  p_data :: "DataRecord list"
  p_fields :: fields_cfg
  p_groupbyRows :: "string list"
  p_groupbyColumns :: "string list"
  p_totalData :: "DataRecord list"

definition rowTotalsData :: "(DateFormatter \<Rightarrow> jsval \<Rightarrow> string) \<Rightarrow> string option \<Rightarrow> formData \<Rightarrow> queriesData \<Rightarrow> DataRecord list" where
  "rowTotalsData fmt granularity fd q =
     totalsData (groupbyRows fd) (formattedMetrics (metrics fd))
       (transformedData fmt (dateFormatters (dateFormat fd) granularity q) (data q))"

definition colTotalsData :: "(DateFormatter \<Rightarrow> jsval \<Rightarrow> string) \<Rightarrow> string option \<Rightarrow> formData \<Rightarrow> queriesData \<Rightarrow> DataRecord list" where
  "colTotalsData fmt granularity fd q =
     totalsData (groupbyColumns fd) (formattedMetrics (metrics fd))
       (transformedData fmt (dateFormatters (dateFormat fd) granularity q) (data q))"

definition transformProps ::
  "(DateFormatter \<Rightarrow> jsval \<Rightarrow> string) \<Rightarrow> string option \<Rightarrow> formData \<Rightarrow> queriesData \<Rightarrow> props" where
  "transformProps fmt granularity fd q =
     \<lparr> p_data = transformedData fmt (dateFormatters (dateFormat fd) granularity q) (data q),
       p_fields = mk_fields fd,
       p_groupbyRows = groupbyRows fd,
       p_groupbyColumns = groupbyColumns fd,
       p_totalData =
         rowTotalsData fmt granularity fd q @ colTotalsData fmt granularity fd q
         @ [sumOfRowTotals (formattedMetrics (metrics fd)) (rowTotalsData fmt granularity fd q)] \<rparr>"

section \<open>The render adapter\<close>







section \<open>The formatter policy as the specification words it\<close>

text \<open>
  The four branches of the specification's formatter resolution, written from its words
  and compared with \<open>select_formatter\<close> below. A granularity is known when one is present
  and non-empty; a column is uniformly numeric when each row holds a number, \<open>null\<close> or
  nothing there.
\<close>

definition spec_uniformly_numeric :: "string \<Rightarrow> DataRecord list \<Rightarrow> bool" where
  "spec_uniformly_numeric c ds =
     (\<forall>r \<in> set ds. case obj_get r c of
                      VNum n \<Rightarrow> True | VNaN \<Rightarrow> True | VNull \<Rightarrow> True | VUndefined \<Rightarrow> True
                    | VBool b \<Rightarrow> False | VStr s \<Rightarrow> False)"

definition spec_granularity_known :: "string option \<Rightarrow> bool" where
  "spec_granularity_known g = (case g of Some s \<Rightarrow> s \<noteq> [] | None \<Rightarrow> False)"

definition spec_formatter_policy ::
  "string option \<Rightarrow> string option \<Rightarrow> bool \<Rightarrow> DateFormatter option" where
  "spec_formatter_policy dateFmt granularity uniformlyNumeric =
     (let smart = (dateFmt = Some smartDateFormatter_id) in
      if smart \<and> spec_granularity_known granularity
        then map_option ForGranularity granularity
      else if smart \<and> \<not> spec_granularity_known granularity \<and> uniformlyNumeric
        then Some (TimeFormatter DATABASE_DATETIME)
      else if smart \<and> \<not> uniformlyNumeric
        then Some StringFn
      else (case dateFmt of
              Some f \<Rightarrow> if f \<noteq> [] then Some (TimeFormatter f) else None
            | None \<Rightarrow> None))"

section \<open>Sums of metric values\<close>

text \<open>
  Vocabulary for stating what the totals hold when every metric value is a number,
  \<open>null\<close> or missing: the number a value contributes through \<open>item[metric] || 0\<close>, the
  sum of a row over the configured metrics, and the rows of a group.
\<close>

fun numeric_or_missing :: "jsval \<Rightarrow> bool" where
  "numeric_or_missing (VNum n) = True"
| "numeric_or_missing VNull = True"
| "numeric_or_missing VUndefined = True"
| "numeric_or_missing v = False"

fun metric_number :: "jsval \<Rightarrow> int" where
  "metric_number (VNum n) = n"
| "metric_number v = 0"

definition row_metrics_sum :: "string list \<Rightarrow> DataRecord \<Rightarrow> int" where
  "row_metrics_sum ms item = sum_list (map (\<lambda>m. metric_number (obj_get item m)) ms)"

definition group_rows :: "string list \<Rightarrow> DataRecord list \<Rightarrow> string \<Rightarrow> DataRecord list" where
  "group_rows dims ds key = filter (\<lambda>item. groupKey dims item = key) ds"

definition all_numbers :: "jsval obj \<Rightarrow> bool" where
  "all_numbers ob = (\<forall>p \<in> set ob. \<exists>n. snd p = VNum n)"

section \<open>Concrete inputs\<close>

text \<open>Inputs on which the theorems below are instantiated and the code is evaluated.\<close>

definition no_fmt :: "DateFormatter \<Rightarrow> jsval \<Rightarrow> string" where
  "no_fmt f v = []"

text \<open>One dimension \<open>a\<close>, two metrics \<open>m\<close> and \<open>n\<close>, one row.\<close>

definition two_metrics_fd :: formData where
  "two_metrics_fd =
     \<lparr> groupbyRows = [''a''], groupbyColumns = [],
       metrics = MetricArray [SavedMetric ''m'', AdhocMetric ''n''],
       dateFormat = None, transposePivot = False \<rparr>"

definition two_metrics_q :: queriesData where
  "two_metrics_q =
     \<lparr> colnames = [''a'', ''m'', ''n''], coltypes = [STRING, NUMERIC, NUMERIC],
       data = [[(''a'', VStr ''x''), (''m'', VNum 1), (''n'', VNum 10)]] \<rparr>"

text \<open>One temporal column \<open>ts\<close> whose only value is \<open>null\<close>, smart date format.\<close>

definition null_dates_q :: queriesData where
  "null_dates_q =
     \<lparr> colnames = [''ts'', ''m''], coltypes = [TEMPORAL, NUMERIC],
       data = [[(''ts'', VNull), (''m'', VNum 1)]] \<rparr>"

text \<open>A stand-in for the host's formatting, showing the raw value it was given.\<close>

definition demo_fmt :: "DateFormatter \<Rightarrow> jsval \<Rightarrow> string" where
  "demo_fmt f v = ''date('' @ to_string v @ '')''"

text \<open>A temporal column \<open>ts\<close> with an explicit format string.\<close>

definition dates_q :: queriesData where
  "dates_q =
     \<lparr> colnames = [''ts'', ''a'', ''m''], coltypes = [TEMPORAL, STRING, NUMERIC],
       data = [[(''a'', VStr ''x''), (''ts'', VNum 86400000), (''m'', VNum 1)],
               [(''a'', VStr ''y''), (''ts'', VNum 0), (''m'', VNum 2)]] \<rparr>"

definition dates_fd :: formData where
  "dates_fd =
     \<lparr> groupbyRows = [''a''], groupbyColumns = [],
       metrics = MetricArray [SavedMetric ''m''],
       dateFormat = Some ''%Y'', transposePivot = False \<rparr>"

text \<open>Transposed pivot with row dimension \<open>a\<close> and column dimension \<open>b\<close>.\<close>

definition transposed_fd :: formData where
  "transposed_fd =
     \<lparr> groupbyRows = [''a''], groupbyColumns = [''b''],
       metrics = MetricArray [SavedMetric ''m''],
       dateFormat = None, transposePivot = True \<rparr>"

definition transposed_q :: queriesData where
  "transposed_q =
     \<lparr> colnames = [''a'', ''b'', ''m''], coltypes = [STRING, STRING, NUMERIC],
       data = [[(''a'', VStr ''x''), (''b'', VStr ''y''), (''m'', VNum 1)]] \<rparr>"

text \<open>Rows grouped by two dimensions \<open>a\<close> and \<open>b\<close>.\<close>

definition two_dims :: "string list" where
  "two_dims = [''a'', ''b'']"

definition plain_row :: DataRecord where
  "plain_row = [(''a'', VStr ''x''), (''b'', VStr ''y''), (''m'', VNum 1)]"


definition null_row :: DataRecord where
  "null_row = [(''a'', VNum 5), (''b'', VNull), (''m'', VNum 3)]"

text \<open>A negative number in dimension \<open>a\<close> next to a \<open>null\<close> in dimension \<open>b\<close>.\<close>

definition negative_fd :: formData where
  "negative_fd =
     \<lparr> groupbyRows = [''a'', ''b''], groupbyColumns = [],
       metrics = MetricArray [SavedMetric ''m''],
       dateFormat = None, transposePivot = False \<rparr>"

definition negative_q :: queriesData where
  "negative_q =
     \<lparr> colnames = [''a'', ''b'', ''m''], coltypes = [NUMERIC, STRING, NUMERIC],
       data = [[(''a'', VNum (- 5)), (''b'', VNull), (''m'', VNum 1)]] \<rparr>"




section \<open>Objects\<close>

lemma map_of_obj_set: "map_of (obj_set ob k v) = (map_of ob)(k \<mapsto> v)"
  by (induction ob) (auto simp: fun_eq_iff)

lemma obj_get_obj_set: "obj_get (obj_set ob k v) k' = (if k' = k then v else obj_get ob k')"
  by (simp add: obj_get_def map_of_obj_set)

lemma keys_obj_set: "fst ` set (obj_set ob k v) = insert k (fst ` set ob)"
  by (induction ob) auto

lemma set_obj_keys: "set (obj_keys ob) = fst ` set ob"
  by (auto simp: obj_keys_def)

lemma obj_get_missing: "k \<notin> fst ` set ob \<Longrightarrow> obj_get ob k = VUndefined"
  by (force simp: obj_get_def dest: map_of_SomeD split: option.splits)

section \<open>Total records\<close>

lemma fold_metric_fields:
  "m \<in> set ms \<Longrightarrow> obj_get (fold (\<lambda>metric t. obj_set t metric v) ms t0) m = v"
  by (induction ms arbitrary: t0 rule: rev_induct) (auto simp: obj_get_obj_set)

lemma fold_metric_fields_other:
  "d \<notin> set ms \<Longrightarrow> obj_get (fold (\<lambda>metric t. obj_set t metric v) ms t0) d = obj_get t0 d"
  by (induction ms arbitrary: t0) (auto simp: obj_get_obj_set)

lemma totalsItem_metric:
  "m \<in> set ms \<Longrightarrow> obj_get (totalsItem dims ms tm key) m = obj_get tm key"
  by (simp add: totalsItem_def fold_metric_fields)

lemma totalsData_member:
  "t \<in> set (totalsData dims ms ds) \<longleftrightarrow>
     (\<exists>key \<in> fst ` set (totalsMap dims ms ds). t = totalsItem dims ms (totalsMap dims ms ds) key)"
  by (auto simp: totalsData_def Let_def set_obj_keys)

text \<open>
  C9. In every row-total and every column-total record, any two configured metric fields
  hold the same value, namely the one entry that the totals map (over the row or over
  the column dimensions) accumulated for the record's group key.
\<close>

theorem total_record_metrics_equal:
  assumes "t \<in> set (rowTotalsData fmt granularity fd q) \<or> t \<in> set (colTotalsData fmt granularity fd q)"
    and "m1 \<in> set (formattedMetrics (metrics fd))"
    and "m2 \<in> set (formattedMetrics (metrics fd))"
  shows "obj_get t m1 = obj_get t m2
       \<and> (\<exists>dims key. (dims = groupbyRows fd \<or> dims = groupbyColumns fd)
             \<and> obj_get t m1
                 = obj_get (totalsMap dims (formattedMetrics (metrics fd))
                              (p_data (transformProps fmt granularity fd q))) key)"
proof -
  let ?ms = "formattedMetrics (metrics fd)"
  let ?ds = "p_data (transformProps fmt granularity fd q)"
  from assms(1) obtain dims where dims: "dims = groupbyRows fd \<or> dims = groupbyColumns fd"
    and t: "t \<in> set (totalsData dims ?ms ?ds)"
    by (auto simp: rowTotalsData_def colTotalsData_def transformProps_def)
  from t obtain key where "t = totalsItem dims ?ms (totalsMap dims ?ms ?ds) key"
    by (auto simp: totalsData_member)
  with assms(2,3) have "obj_get t m1 = obj_get (totalsMap dims ?ms ?ds) key"
    and "obj_get t m2 = obj_get (totalsMap dims ?ms ?ds) key"
    by (simp_all add: totalsItem_metric)
  with dims show ?thesis by auto
qed

theorem total_record_metrics_equal_witness:
  "[(''a'', VStr ''x''), (''m'', VNum 11), (''n'', VNum 11)]
      \<in> set (rowTotalsData no_fmt None two_metrics_fd two_metrics_q)
   \<and> ''m'' \<in> set (formattedMetrics (metrics two_metrics_fd))
   \<and> ''n'' \<in> set (formattedMetrics (metrics two_metrics_fd))
   \<and> obj_get [(''a'', VStr ''x''), (''m'', VNum 11), (''n'', VNum 11)] ''m''
       = obj_get [(''a'', VStr ''x''), (''m'', VNum 11), (''n'', VNum 11)] ''n''"
proof -
  have h1: "[(''a'', VStr ''x''), (''m'', VNum 11), (''n'', VNum 11)]
              \<in> set (rowTotalsData no_fmt None two_metrics_fd two_metrics_q)"
    by code_simp
  have h2: "''m'' \<in> set (formattedMetrics (metrics two_metrics_fd))"
    by code_simp
  have h3: "''n'' \<in> set (formattedMetrics (metrics two_metrics_fd))"
    by code_simp
  from total_record_metrics_equal [OF disjI1 [OF h1] h2 h3] h1 h2 h3
  show ?thesis by blast
qed

section \<open>The emitted total set\<close>

text \<open>
  C7. The total set handed to the widget is the row-total records, followed by the
  column-total records, followed by the single grand-total record.
\<close>

theorem totalData_concat:
  "p_totalData (transformProps fmt granularity fd q) =
     rowTotalsData fmt granularity fd q @ colTotalsData fmt granularity fd q
     @ [sumOfRowTotals (formattedMetrics (metrics fd)) (rowTotalsData fmt granularity fd q)]"
  by (simp add: transformProps_def)

section \<open>Temporal formatter resolution\<close>

lemma numeric_test_cases:
  "(v = VNull \<or> v = VUndefined \<or> typeof_number v)
     = (case v of VNum n \<Rightarrow> True | VNaN \<Rightarrow> True | VNull \<Rightarrow> True | VUndefined \<Rightarrow> True
        | VBool b \<Rightarrow> False | VStr s \<Rightarrow> False)"
  by (cases v) auto

lemma isNumeric_spec: "isNumeric c ds = spec_uniformly_numeric c ds"
  unfolding isNumeric_def spec_uniformly_numeric_def list_all_iff numeric_test_cases ..

lemma select_formatter_policy:
  "select_formatter dateFmt granularity ds c
     = spec_formatter_policy dateFmt granularity (spec_uniformly_numeric c ds)"
  by (auto simp: select_formatter_def spec_formatter_policy_def spec_granularity_known_def
        isNumeric_spec Let_def split: option.splits)

lemma fold_formatters_lookup:
  "map_of (fold (\<lambda>c acc. case sel c of Some f \<Rightarrow> obj_set acc c f | None \<Rightarrow> acc) cs acc0) k
     = (if k \<in> set cs \<and> sel k \<noteq> None then sel k else map_of acc0 k)"
  by (induction cs arbitrary: acc0) (auto simp: map_of_obj_set split: option.splits)

lemma dateFormatters_lookup:
  "map_of (dateFormatters dateFmt granularity q) c
     = (if c \<in> set (temporalColnames (colnames q) (coltypes q))
        then select_formatter dateFmt granularity (data q) c else None)"
  by (simp add: dateFormatters_def fold_formatters_lookup)

lemma temporalColnames_iff:
  "c \<in> set (temporalColnames cns cts)
     \<longleftrightarrow> (\<exists>i. i < length cns \<and> i < length cts \<and> cns ! i = c \<and> cts ! i = TEMPORAL)"
  by (force simp: temporalColnames_def set_zip image_iff)

text \<open>
  C3. For a column flagged temporal, the formatter stored in \<open>dateFormatters\<close> is the one
  the four-branch policy names: the granularity formatter for smart format with a known
  granularity; the database-datetime formatter for smart format, no granularity and only
  numbers, \<open>null\<close> or missing values in the column; \<open>String\<close> for smart format otherwise;
  the formatter built from the configured format string when one is set; and none
  otherwise. In particular an all-\<open>null\<close> column with smart format and no granularity gets
  the database-datetime formatter.
\<close>

theorem temporal_formatter_selection:
  assumes "i < length (colnames q)" and "i < length (coltypes q)"
    and "coltypes q ! i = TEMPORAL"
  shows "map_of (dateFormatters dateFmt granularity q) (colnames q ! i)
           = spec_formatter_policy dateFmt granularity
               (spec_uniformly_numeric (colnames q ! i) (data q))
         \<and> ((\<forall>r \<in> set (data q). obj_get r (colnames q ! i) = VNull)
              \<and> dateFmt = Some smartDateFormatter_id \<and> granularity = None
            \<longrightarrow> map_of (dateFormatters dateFmt granularity q) (colnames q ! i)
                  = Some (TimeFormatter DATABASE_DATETIME))"
proof -
  have mem: "colnames q ! i \<in> set (temporalColnames (colnames q) (coltypes q))"
    using assms by (auto simp: temporalColnames_iff)
  have sel: "map_of (dateFormatters dateFmt granularity q) (colnames q ! i)
           = spec_formatter_policy dateFmt granularity
               (spec_uniformly_numeric (colnames q ! i) (data q))"
    using mem by (simp add: dateFormatters_lookup select_formatter_policy)
  have "spec_formatter_policy (Some smartDateFormatter_id) None
          (spec_uniformly_numeric (colnames q ! i) (data q))
        = Some (TimeFormatter DATABASE_DATETIME)"
    if "\<forall>r \<in> set (data q). obj_get r (colnames q ! i) = VNull"
    using that
    by (simp add: spec_formatter_policy_def spec_granularity_known_def spec_uniformly_numeric_def)
  with sel show ?thesis by auto
qed

theorem temporal_formatter_selection_witness:
  "0 < length (colnames null_dates_q) \<and> 0 < length (coltypes null_dates_q)
   \<and> coltypes null_dates_q ! 0 = TEMPORAL
   \<and> list_all (\<lambda>r. obj_get r (colnames null_dates_q ! 0) = VNull) (data null_dates_q)
   \<and> map_of (dateFormatters (Some smartDateFormatter_id) None null_dates_q)
        (colnames null_dates_q ! 0)
      = spec_formatter_policy (Some smartDateFormatter_id) None
          (spec_uniformly_numeric (colnames null_dates_q ! 0) (data null_dates_q))
   \<and> map_of (dateFormatters (Some smartDateFormatter_id) None null_dates_q)
        (colnames null_dates_q ! 0)
      = Some (TimeFormatter DATABASE_DATETIME)"
proof -
  have h1: "0 < length (colnames null_dates_q)" by (simp add: null_dates_q_def)
  have h2: "0 < length (coltypes null_dates_q)" by (simp add: null_dates_q_def)
  have h3: "coltypes null_dates_q ! 0 = TEMPORAL" by (simp add: null_dates_q_def)
  have h4: "\<forall>r \<in> set (data null_dates_q). obj_get r (colnames null_dates_q ! 0) = VNull"
    by (simp add: null_dates_q_def obj_get_def)
  have h5: "list_all (\<lambda>r. obj_get r (colnames null_dates_q ! 0) = VNull) (data null_dates_q)"
    using h4 by (simp add: list_all_iff)
  from temporal_formatter_selection [OF h1 h2 h3, of "Some smartDateFormatter_id" None]
    h1 h2 h3 h4 h5
  show ?thesis by blast
qed

section \<open>Reshaping and transposition\<close>

lemma fold_formatted_get:
  "obj_get (fold (\<lambda>k t. case map_of dfs k of
                           Some f \<Rightarrow> obj_set t k (VStr (fmt f (obj_get item k)))
                         | None \<Rightarrow> obj_set t k (obj_get item k)) ks t0) c
     = (if c \<in> set ks
        then (case map_of dfs c of Some f \<Rightarrow> VStr (fmt f (obj_get item c)) | None \<Rightarrow> obj_get item c)
        else obj_get t0 c)"
  by (induction ks arbitrary: t0) (auto simp: obj_get_obj_set split: option.splits)

lemma fold_formatted_keys:
  "fst ` set (fold (\<lambda>k t. case map_of dfs k of
                           Some f \<Rightarrow> obj_set t k (VStr (fmt f (obj_get item k)))
                         | None \<Rightarrow> obj_set t k (obj_get item k)) ks t0)
     = set ks \<union> fst ` set t0"
  by (induction ks arbitrary: t0) (auto simp: keys_obj_set split: option.splits)

lemma fold_copy_get:
  "obj_get (fold (\<lambda>k t. if k \<notin> S then obj_set t k (obj_get item k) else t) ks t0) c
     = (if c \<in> set ks \<and> c \<notin> S then obj_get item c else obj_get t0 c)"
  by (induction ks arbitrary: t0) (auto simp: obj_get_obj_set)

lemma fold_copy_keys:
  "fst ` set (fold (\<lambda>k t. if k \<notin> S then obj_set t k (obj_get item k) else t) ks t0)
     = (set ks - S) \<union> fst ` set t0"
  by (induction ks arbitrary: t0) (auto simp: keys_obj_set)

lemma map_of_Some_key: "map_of ob k = Some v \<Longrightarrow> k \<in> fst ` set ob"
  by (force dest: map_of_SomeD)

lemma transformItem_get:
  "obj_get (transformItem fmt dfs item) c
     = (case map_of dfs c of Some f \<Rightarrow> VStr (fmt f (obj_get item c)) | None \<Rightarrow> obj_get item c)"
proof (cases "map_of dfs c")
  case None
  then have "c \<notin> fst ` set dfs" by (simp add: map_of_eq_None_iff)
  then show ?thesis using None
    by (simp add: transformItem_def Let_def fold_copy_get fold_formatted_get set_obj_keys
          obj_get_missing)
next
  case (Some f)
  then have "c \<in> fst ` set dfs" by (rule map_of_Some_key)
  then show ?thesis using Some
    by (simp add: transformItem_def Let_def fold_copy_get fold_formatted_get set_obj_keys)
qed

lemma transformItem_keys:
  "fst ` set (transformItem fmt dfs item) = fst ` set dfs \<union> fst ` set item"
  by (auto simp: transformItem_def Let_def fold_copy_keys fold_formatted_keys set_obj_keys)

text \<open>
  C5. The reshaped data has one row per input row, in the input order. In row \<open>i\<close>, a
  temporal column for which a formatter was resolved holds that formatter's output on the
  raw value of input row \<open>i\<close>; every other column holds the input row's value.
\<close>

theorem reshaped_rows:
  "length (p_data (transformProps fmt granularity fd q)) = length (data q)
   \<and> (\<forall>i < length (data q). \<forall>c.
        obj_get (p_data (transformProps fmt granularity fd q) ! i) c
          = (if c \<in> set (temporalColnames (colnames q) (coltypes q))
             then (case select_formatter (dateFormat fd) granularity (data q) c of
                     Some formatter \<Rightarrow> VStr (fmt formatter (obj_get (data q ! i) c))
                   | None \<Rightarrow> obj_get (data q ! i) c)
             else obj_get (data q ! i) c))"
  by (simp add: transformProps_def transformedData_def transformItem_get dateFormatters_lookup)

theorem reshaped_rows_witness:
  "(1::nat) < length (data dates_q)
   \<and> ''ts'' \<in> set (temporalColnames (colnames dates_q) (coltypes dates_q))
   \<and> ''a'' \<notin> set (temporalColnames (colnames dates_q) (coltypes dates_q))
   \<and> select_formatter (dateFormat dates_fd) None (data dates_q) ''ts'' = Some (TimeFormatter ''%Y'')
   \<and> obj_get (p_data (transformProps demo_fmt None dates_fd dates_q) ! 1) ''ts''
       = VStr (demo_fmt (TimeFormatter ''%Y'') (obj_get (data dates_q ! 1) ''ts''))
   \<and> obj_get (p_data (transformProps demo_fmt None dates_fd dates_q) ! 1) ''a''
       = obj_get (data dates_q ! 1) ''a''"
proof -
  have h1: "(1::nat) < length (data dates_q)" by code_simp
  have h2: "''ts'' \<in> set (temporalColnames (colnames dates_q) (coltypes dates_q))" by code_simp
  have h3: "''a'' \<notin> set (temporalColnames (colnames dates_q) (coltypes dates_q))" by code_simp
  have h4: "select_formatter (dateFormat dates_fd) None (data dates_q) ''ts''
              = Some (TimeFormatter ''%Y'')" by code_simp
  from reshaped_rows [of demo_fmt None dates_fd dates_q] h1
  have all: "\<forall>c. obj_get (p_data (transformProps demo_fmt None dates_fd dates_q) ! 1) c
          = (if c \<in> set (temporalColnames (colnames dates_q) (coltypes dates_q))
             then (case select_formatter (dateFormat dates_fd) None (data dates_q) c of
                     Some formatter \<Rightarrow> VStr (demo_fmt formatter (obj_get (data dates_q ! 1) c))
                   | None \<Rightarrow> obj_get (data dates_q ! 1) c)
             else obj_get (data dates_q ! 1) c)"
    by blast
  from all [rule_format, of "''ts''"] h2 h4
  have r1: "obj_get (p_data (transformProps demo_fmt None dates_fd dates_q) ! 1) ''ts''
       = VStr (demo_fmt (TimeFormatter ''%Y'') (obj_get (data dates_q ! 1) ''ts''))"
    by simp
  from all [rule_format, of "''a''"] h3
  have r2: "obj_get (p_data (transformProps demo_fmt None dates_fd dates_q) ! 1) ''a''
       = obj_get (data dates_q ! 1) ''a''"
    by simp
  from h1 h2 h3 h4 r1 r2 show ?thesis by blast
qed

text \<open>
  C2, amended. With the transpose flag set, \<open>fields.rows\<close> is the configured column
  dimension list and \<open>fields.columns\<close> the configured row dimension list. The row totals
  are still grouped by the configured row dimensions and the column totals by the
  configured column dimensions, and neither the reshaped rows nor the total set depend on
  the flag.
\<close>

theorem transpose_swaps_fields_only:
  assumes "transposePivot fd"
  shows "rows (p_fields (transformProps fmt granularity fd q)) = groupbyColumns fd
       \<and> columns (p_fields (transformProps fmt granularity fd q)) = groupbyRows fd
       \<and> rowTotalsData fmt granularity fd q
           = totalsData (groupbyRows fd) (formattedMetrics (metrics fd))
               (p_data (transformProps fmt granularity fd q))
       \<and> colTotalsData fmt granularity fd q
           = totalsData (groupbyColumns fd) (formattedMetrics (metrics fd))
               (p_data (transformProps fmt granularity fd q))
       \<and> p_data (transformProps fmt granularity fd q)
           = p_data (transformProps fmt granularity (fd\<lparr>transposePivot := False\<rparr>) q)
       \<and> p_totalData (transformProps fmt granularity fd q)
           = p_totalData (transformProps fmt granularity (fd\<lparr>transposePivot := False\<rparr>) q)"
  using assms
  by (simp add: transformProps_def mk_fields_def rowTotalsData_def colTotalsData_def)

theorem transpose_swaps_fields_only_witness:
  "transposePivot transposed_fd
   \<and> rows (p_fields (transformProps no_fmt None transposed_fd transposed_q)) = groupbyColumns transposed_fd
   \<and> columns (p_fields (transformProps no_fmt None transposed_fd transposed_q)) = groupbyRows transposed_fd
   \<and> rowTotalsData no_fmt None transposed_fd transposed_q
       = totalsData (groupbyRows transposed_fd) (formattedMetrics (metrics transposed_fd))
           (p_data (transformProps no_fmt None transposed_fd transposed_q))
   \<and> p_totalData (transformProps no_fmt None transposed_fd transposed_q)
       = p_totalData (transformProps no_fmt None (transposed_fd\<lparr>transposePivot := False\<rparr>) transposed_q)"
proof -
  have h: "transposePivot transposed_fd" by (simp add: transposed_fd_def)
  from transpose_swaps_fields_only [OF h, of no_fmt None transposed_q] h
  show ?thesis by blast
qed

text \<open>
  C2 as stated fails: with the flag set and \<open>fields.rows = [b]\<close>, the row-total records
  are still keyed by \<open>a\<close>, not by the swapped row dimension \<open>b\<close>.
\<close>

theorem transpose_aggregation_counterexample:
  "transposePivot transposed_fd
   \<and> rowTotalsData no_fmt None transposed_fd transposed_q
       \<noteq> totalsData (rows (p_fields (transformProps no_fmt None transposed_fd transposed_q)))
           (formattedMetrics (metrics transposed_fd))
           (p_data (transformProps no_fmt None transposed_fd transposed_q))
   \<and> rows (p_fields (transformProps no_fmt None transposed_fd transposed_q)) = [''b'']
   \<and> rowTotalsData no_fmt None transposed_fd transposed_q = [[(''a'', VStr ''x''), (''m'', VNum 1)]]
   \<and> totalsData (rows (p_fields (transformProps no_fmt None transposed_fd transposed_q)))
        (formattedMetrics (metrics transposed_fd))
        (p_data (transformProps no_fmt None transposed_fd transposed_q))
       = [[(''b'', VStr ''y''), (''m'', VNum 1)]]"
  by code_simp

section \<open>Group keys: join, split and the dimension fields\<close>

lemma split_char_nonempty: "split_char c s \<noteq> []"
  by (induction s) (auto split: list.splits)

lemma split_pieces_sep_free: "p \<in> set (split_char c s) \<Longrightarrow> c \<notin> set p"
  by (induction s arbitrary: p) (auto split: list.splits if_splits)

lemma split_no_sep: "c \<notin> set s \<Longrightarrow> split_char c s = [s]"
  by (induction s) auto

lemma split_append_sep: "c \<notin> set x \<Longrightarrow> split_char c (x @ c # r) = x # split_char c r"
  by (induction x) auto

lemma split_join:
  "xs \<noteq> [] \<Longrightarrow> \<forall>x \<in> set xs. c \<notin> set x \<Longrightarrow> split_char c (join_strings [c] xs) = xs"
  by (induction "[c]" xs rule: join_strings.induct) (auto simp: split_no_sep split_append_sep)

lemma length_split: "length (split_char c s) = Suc (length (filter (\<lambda>x. x = c) s))"
  by (induction s) (auto split: list.splits simp: split_char_nonempty)

lemma count_sep_join:
  "length xs \<le> Suc (length (filter (\<lambda>x. x = c) (join_strings [c] xs)))"
  by (induction "[c]" xs rule: join_strings.induct) auto

lemma length_split_join: "length xs \<le> length (split_char c (join_strings [c] xs))"
  by (simp add: length_split count_sep_join)

lemma fold_dim_fields_other:
  "d \<notin> fst ` set ps \<Longrightarrow>
     obj_get (fold (\<lambda>(d, index) t. obj_set t d (g index)) ps t0) d = obj_get t0 d"
  by (induction ps arbitrary: t0) (auto simp: obj_get_obj_set)

lemma fold_dim_fields:
  "d \<in> fst ` set ps \<Longrightarrow>
     \<exists>i. (d, i) \<in> set ps \<and> obj_get (fold (\<lambda>(d, index) t. obj_set t d (g index)) ps t0) d = g i"
proof (induction ps arbitrary: t0)
  case Nil
  then show ?case by simp
next
  case (Cons p ps)
  obtain d' i' where p: "p = (d', i')" by (cases p)
  show ?case
  proof (cases "d \<in> fst ` set ps")
    case True
    from Cons.IH [OF True, of "obj_set t0 d' (g i')"] show ?thesis
      by (auto simp: p)
  next
    case False
    with Cons.prems have "d' = d" by (auto simp: p)
    with False show ?thesis
      by (auto simp: p fold_dim_fields_other obj_get_obj_set)
  qed
qed

lemma totalsItem_dim:
  assumes "d \<in> set dims" and "d \<notin> set ms"
  shows "\<exists>i < length dims. dims ! i = d
           \<and> obj_get (totalsItem dims ms tm key) d = array_get (split_char CHR ''-'' key) i"
proof -
  have "d \<in> fst ` set (zip dims [0 ..< length dims])"
    using assms(1) by (force simp: set_zip in_set_conv_nth)
  from fold_dim_fields [OF this, of "\<lambda>i. array_get (split_char CHR ''-'' key) i" "[]"]
  obtain i where i: "(d, i) \<in> set (zip dims [0 ..< length dims])"
    and v: "obj_get (fold (\<lambda>(d, index) t. obj_set t d (array_get (split_char CHR ''-'' key) index))
                       (zip dims [0 ..< length dims]) []) d
            = array_get (split_char CHR ''-'' key) i"
    by blast
  from i have "i < length dims \<and> dims ! i = d"
    by (auto simp: set_zip)
  with v assms(2) show ?thesis
    by (auto simp: totalsItem_def fold_metric_fields_other)
qed

lemma groupKey_pieces_length:
  "length dims \<le> length (split_char CHR ''-'' (groupKey dims item))"
  using length_split_join [of "map join_elem (map (obj_get item) dims)" "CHR ''-''"]
  by (simp add: groupKey_def js_join_def)

lemma groupKey_split:
  assumes "dims \<noteq> []" and "\<forall>d \<in> set dims. CHR ''-'' \<notin> set (join_elem (obj_get item d))"
  shows "split_char CHR ''-'' (groupKey dims item) = map (\<lambda>d. join_elem (obj_get item d)) dims"
  using assms split_join [of "map join_elem (map (obj_get item) dims)" "CHR ''-''"]
  by (simp add: groupKey_def js_join_def comp_def)

lemma truthy_has_key: "truthy (obj_get ob k) \<Longrightarrow> k \<in> fst ` set ob"
  by (rule ccontr) (simp add: obj_get_missing)

lemma fold_add_keys:
  "fst ` set (fold (\<lambda>metric m. obj_set m key (h metric m)) ms m0)
     = (if ms = [] then fst ` set m0 else insert key (fst ` set m0))"
  by (induction ms arbitrary: m0) (auto simp: keys_obj_set)

lemma totals_step_keys:
  "fst ` set (totals_step dims ms item acc) = insert (groupKey dims item) (fst ` set acc)"
  by (auto simp: totals_step_def Let_def fold_add_keys keys_obj_set dest: truthy_has_key)

lemma fold_totals_step_keys:
  "fst ` set (fold (totals_step dims ms) ds acc) = groupKey dims ` set ds \<union> fst ` set acc"
  by (induction ds arbitrary: acc) (auto simp: totals_step_keys)

lemma totalsMap_keys: "fst ` set (totalsMap dims ms ds) = groupKey dims ` set ds"
  by (simp add: totalsMap_def fold_totals_step_keys)

lemma group_record_member:
  "item \<in> set ds \<Longrightarrow>
     totalsItem dims ms (totalsMap dims ms ds) (groupKey dims item) \<in> set (totalsData dims ms ds)"
  by (auto simp: totalsData_member totalsMap_keys)

lemma totalsItem_dim_string:
  assumes "d \<in> set dims" and "d \<notin> set ms"
  shows "\<exists>s. obj_get (totalsItem dims ms tm (groupKey dims item)) d = VStr s \<and> CHR ''-'' \<notin> set s"
proof -
  from totalsItem_dim [OF assms, of tm "groupKey dims item"]
  obtain i where i: "i < length dims"
    and v: "obj_get (totalsItem dims ms tm (groupKey dims item)) d
              = array_get (split_char CHR ''-'' (groupKey dims item)) i"
    by blast
  from i groupKey_pieces_length [of dims item]
  have lt: "i < length (split_char CHR ''-'' (groupKey dims item))" by simp
  then have "split_char CHR ''-'' (groupKey dims item) ! i
               \<in> set (split_char CHR ''-'' (groupKey dims item))"
    by simp
  then have "CHR ''-'' \<notin> set (split_char CHR ''-'' (groupKey dims item) ! i)"
    by (rule split_pieces_sep_free)
  with v lt show ?thesis by (simp add: array_get_def)
qed

lemma totalsItem_dim_aligned:
  assumes "d \<in> set dims" and "d \<notin> set ms"
    and "\<forall>d' \<in> set dims. CHR ''-'' \<notin> set (join_elem (obj_get item d'))"
  shows "obj_get (totalsItem dims ms tm (groupKey dims item)) d = VStr (join_elem (obj_get item d))"
proof -
  from assms(1) have ne: "dims \<noteq> []" by auto
  from totalsItem_dim [OF assms(1,2), of tm "groupKey dims item"]
  obtain i where i: "i < length dims" "dims ! i = d"
    and v: "obj_get (totalsItem dims ms tm (groupKey dims item)) d
              = array_get (split_char CHR ''-'' (groupKey dims item)) i"
    by blast
  with groupKey_split [OF ne assms(3)] show ?thesis
    by (simp add: array_get_def)
qed

section \<open>Reconstructed dimension fields\<close>

text \<open>
  Row totals are \<open>totalsData\<close> at \<open>groupbyRows\<close> and column totals are \<open>totalsData\<close> at
  \<open>groupbyColumns\<close>, both over the reshaped rows; the theorems of this section hold for
  any dimension list \<open>dims\<close>. A dimension field is a field named by \<open>dims\<close> that is not
  also the name of a configured metric (the metric loop runs second and would overwrite it).
\<close>



text \<open>
  C10, amended. Every dimension field of every total record is a string, a piece of the
  split group key and hence free of \<open>-\<close>, whatever the input values were. A \<open>null\<close>
  dimension value contributes the empty string to the group key, and it is reconstructed
  as the empty string when no dimension value of the row renders with a \<open>-\<close>.
\<close>

theorem dimension_fields_are_strings:
  assumes "d \<in> set dims" and "d \<notin> set ms"
  shows "(\<forall>t \<in> set (totalsData dims ms ds). \<exists>s. obj_get t d = VStr s \<and> CHR ''-'' \<notin> set s)
       \<and> (\<forall>item \<in> set ds.
             obj_get item d = VNull
             \<and> (\<forall>d' \<in> set dims. CHR ''-'' \<notin> set (join_elem (obj_get item d')))
           \<longrightarrow> totalsItem dims ms (totalsMap dims ms ds) (groupKey dims item)
                   \<in> set (totalsData dims ms ds)
               \<and> split_char CHR ''-'' (groupKey dims item)
                   = map (\<lambda>d'. join_elem (obj_get item d')) dims
               \<and> join_elem (obj_get item d) = []
               \<and> obj_get (totalsItem dims ms (totalsMap dims ms ds) (groupKey dims item)) d
                   = VStr [])"
proof (intro conjI ballI impI)
  fix t assume "t \<in> set (totalsData dims ms ds)"
  then obtain item where "item \<in> set ds"
      and "t = totalsItem dims ms (totalsMap dims ms ds) (groupKey dims item)"
    by (auto simp: totalsData_member totalsMap_keys)
  with totalsItem_dim_string [OF assms, of "totalsMap dims ms ds" item]
  show "\<exists>s. obj_get t d = VStr s \<and> CHR ''-'' \<notin> set s" by simp
next
  fix item
  assume item: "item \<in> set ds"
    and h: "obj_get item d = VNull
            \<and> (\<forall>d' \<in> set dims. CHR ''-'' \<notin> set (join_elem (obj_get item d')))"
  from item show "totalsItem dims ms (totalsMap dims ms ds) (groupKey dims item)
                   \<in> set (totalsData dims ms ds)"
    by (rule group_record_member)
  from assms(1) have "dims \<noteq> []" by auto
  with h show "split_char CHR ''-'' (groupKey dims item)
                 = map (\<lambda>d'. join_elem (obj_get item d')) dims"
    by (simp add: groupKey_split)
  from h show "join_elem (obj_get item d) = []" by simp
  from h totalsItem_dim_aligned [OF assms, of item "totalsMap dims ms ds"]
  show "obj_get (totalsItem dims ms (totalsMap dims ms ds) (groupKey dims item)) d = VStr []"
    by simp
qed

theorem dimension_fields_are_strings_witness:
  "''b'' \<in> set two_dims \<and> ''b'' \<notin> set [''m'']
   \<and> null_row \<in> set [plain_row, null_row]
   \<and> obj_get null_row ''b'' = VNull
   \<and> list_all (\<lambda>d'. CHR ''-'' \<notin> set (join_elem (obj_get null_row d'))) two_dims
   \<and> list_all (\<lambda>t. \<exists>s. obj_get t ''b'' = VStr s \<and> CHR ''-'' \<notin> set s)
        (totalsData two_dims [''m''] [plain_row, null_row])
   \<and> obj_get (totalsItem two_dims [''m''] (totalsMap two_dims [''m''] [plain_row, null_row])
                (groupKey two_dims null_row)) ''b''
       = VStr []"
proof -
  have h1: "''b'' \<in> set two_dims" by (simp add: two_dims_def)
  have h2: "''b'' \<notin> set [''m'']" by simp
  have h3: "null_row \<in> set [plain_row, null_row]" by simp
  have h4: "obj_get null_row ''b'' = VNull" by (simp add: null_row_def obj_get_def)
  have h5: "\<forall>d' \<in> set two_dims. CHR ''-'' \<notin> set (join_elem (obj_get null_row d'))"
    unfolding list_all_iff [symmetric] by code_simp
  note inst = dimension_fields_are_strings [OF h1 h2, of "[plain_row, null_row]"]
  from inst have r1: "\<forall>t \<in> set (totalsData two_dims [''m''] [plain_row, null_row]).
                       \<exists>s. obj_get t ''b'' = VStr s \<and> CHR ''-'' \<notin> set s"
    by blast
  from inst h3 h4 h5
  have r2: "obj_get (totalsItem two_dims [''m''] (totalsMap two_dims [''m''] [plain_row, null_row])
                (groupKey two_dims null_row)) ''b'' = VStr []"
    by blast
  from h1 h2 h3 h4 h5 r1 r2 show ?thesis by (simp add: list_all_iff)
qed

text \<open>
  C10 as stated fails: next to the dimension value \<open>-5\<close>, the key is \<open>-5-\<close>, its pieces
  are the empty string, \<open>5\<close> and the empty string, and the \<open>null\<close> dimension \<open>b\<close> is
  reconstructed as \<open>5\<close>.
\<close>

theorem null_dimension_counterexample:
  "obj_get (data negative_q ! 0) ''b'' = VNull
   \<and> length (rowTotalsData no_fmt None negative_fd negative_q) = 1
   \<and> obj_get (rowTotalsData no_fmt None negative_fd negative_q ! 0) ''b'' = VStr ''5''
   \<and> obj_get (rowTotalsData no_fmt None negative_fd negative_q ! 0) ''b'' \<noteq> VStr []"
  by code_simp

section \<open>Errors at the render adapter\<close>





section \<open>Totals with more than one metric\<close>

text \<open>
  C1. Evaluation at one row with the metrics \<open>m = 1\<close> and \<open>n = 10\<close>: the row-total record of
  the row's group stores \<open>11\<close>, the sum over both metrics, at \<open>m\<close> and at \<open>n\<close>, where the
  per-metric sums are \<open>1\<close> and \<open>10\<close>.
\<close>

theorem row_total_two_metrics:
  "obj_get (data two_metrics_q ! 0) ''m'' = VNum 1
   \<and> obj_get (data two_metrics_q ! 0) ''n'' = VNum 10
   \<and> rowTotalsData no_fmt None two_metrics_fd two_metrics_q
       = [[(''a'', VStr ''x''), (''m'', VNum 11), (''n'', VNum 11)]]"
  by code_simp

text \<open>
  C4. Evaluation at the same input: the grand-total record, the last element of the total
  set, stores \<open>11\<close> at \<open>m\<close> and at \<open>n\<close>, where the sums of the metrics over the input rows
  are \<open>1\<close> and \<open>10\<close>.
\<close>

theorem grand_total_two_metrics:
  "sumOfRowTotals (formattedMetrics (metrics two_metrics_fd))
     (rowTotalsData no_fmt None two_metrics_fd two_metrics_q)
     = [(''m'', VNum 11), (''n'', VNum 11)]
   \<and> last (p_totalData (transformProps no_fmt None two_metrics_fd two_metrics_q))
       = [(''m'', VNum 11), (''n'', VNum 11)]"
  by code_simp

section \<open>What the group totals hold\<close>

text \<open>
  With numeric or missing metric values, the number accumulated for a group is the sum,
  over the rows of the group, of the row's sum over all configured metrics; with one
  configured metric it is that metric's sum over the group.
\<close>

lemma js_add_metric:
  "numeric_or_missing v \<Longrightarrow> js_add (VNum a) (js_or v (VNum 0)) = VNum (a + metric_number v)"
  by (cases v) (auto simp: js_add_def js_or_def)

lemma obj_get_Some: "map_of ob k = Some v \<Longrightarrow> obj_get ob k = v"
  by (simp add: obj_get_def)

lemma fold_add_metrics:
  assumes "map_of acc key = Some (VNum a)"
    and "\<forall>m \<in> set ms. numeric_or_missing (obj_get item m)"
  shows "map_of (fold (\<lambda>metric m. obj_set m key
                        (js_add (obj_get m key) (js_or (obj_get item metric) (VNum 0)))) ms acc)
           = (map_of acc)(key \<mapsto> VNum (a + row_metrics_sum ms item))"
  using assms
proof (induction ms arbitrary: acc a)
  case Nil
  then show ?case by (auto simp: row_metrics_sum_def fun_eq_iff)
next
  case (Cons m ms)
  let ?acc' = "obj_set acc key (js_add (obj_get acc key) (js_or (obj_get item m) (VNum 0)))"
  have v: "js_add (obj_get acc key) (js_or (obj_get item m) (VNum 0))
             = VNum (a + metric_number (obj_get item m))"
    using Cons.prems by (simp add: obj_get_Some js_add_metric)
  then have "map_of ?acc' key = Some (VNum (a + metric_number (obj_get item m)))"
    by (simp add: map_of_obj_set)
  from Cons.IH [OF this] Cons.prems(2)
  show ?case
    by (auto simp: v map_of_obj_set row_metrics_sum_def add.assoc fun_eq_iff)
qed

lemma all_numbers_lookup:
  "all_numbers ob \<Longrightarrow> map_of ob k = Some v \<Longrightarrow> \<exists>n. v = VNum n"
  by (force simp: all_numbers_def dest: map_of_SomeD)

lemma all_numbers_get:
  "all_numbers ob \<Longrightarrow> obj_get ob k = VUndefined \<or> (\<exists>n. obj_get ob k = VNum n)"
  by (auto simp: obj_get_def split: option.splits dest: all_numbers_lookup)

lemma set_obj_set: "set (obj_set ob k v) \<subseteq> insert (k, v) (set ob)"
  by (induction ob) auto

lemma all_numbers_obj_set: "all_numbers ob \<Longrightarrow> all_numbers (obj_set ob k (VNum n))"
  using set_obj_set [of ob k "VNum n"] by (fastforce simp: all_numbers_def)

lemma totals_step_map:
  assumes "all_numbers acc" and "\<forall>m \<in> set ms. numeric_or_missing (obj_get item m)"
  shows "map_of (totals_step dims ms item acc)
           = (map_of acc)(groupKey dims item \<mapsto>
                VNum (metric_number (obj_get acc (groupKey dims item)) + row_metrics_sum ms item))"
proof (cases "truthy (obj_get acc (groupKey dims item))")
  case True
  with all_numbers_get [OF assms(1), of "groupKey dims item"]
  obtain n where n: "obj_get acc (groupKey dims item) = VNum n" by auto
  then have "map_of acc (groupKey dims item) = Some (VNum n)"
    by (auto simp: obj_get_def split: option.splits)
  from fold_add_metrics [OF this assms(2)] True n show ?thesis
    by (simp add: totals_step_def Let_def)
next
  case False
  with all_numbers_get [OF assms(1), of "groupKey dims item"]
  have z: "metric_number (obj_get acc (groupKey dims item)) = 0" by auto
  have "map_of (obj_set acc (groupKey dims item) (VNum 0)) (groupKey dims item) = Some (VNum 0)"
    by (simp add: map_of_obj_set)
  from fold_add_metrics [OF this assms(2)] False z show ?thesis
    by (simp add: totals_step_def Let_def map_of_obj_set)
qed

lemma all_numbers_fold_add:
  "all_numbers acc \<Longrightarrow> map_of acc key = Some (VNum a)
     \<Longrightarrow> \<forall>m \<in> set ms. numeric_or_missing (obj_get item m)
     \<Longrightarrow> all_numbers (fold (\<lambda>metric m. obj_set m key
                        (js_add (obj_get m key) (js_or (obj_get item metric) (VNum 0)))) ms acc)"
proof (induction ms arbitrary: acc a)
  case Nil
  then show ?case by simp
next
  case (Cons m ms)
  have v: "js_add (obj_get acc key) (js_or (obj_get item m) (VNum 0))
             = VNum (a + metric_number (obj_get item m))"
    using Cons.prems by (simp add: obj_get_Some js_add_metric)
  show ?case
    using Cons.prems Cons.IH [of "obj_set acc key (VNum (a + metric_number (obj_get item m)))"
                                 "a + metric_number (obj_get item m)"]
    by (simp add: v all_numbers_obj_set map_of_obj_set)
qed

lemma all_numbers_totals_step:
  assumes "all_numbers acc" and "\<forall>m \<in> set ms. numeric_or_missing (obj_get item m)"
  shows "all_numbers (totals_step dims ms item acc)"
proof (cases "truthy (obj_get acc (groupKey dims item))")
  case True
  with all_numbers_get [OF assms(1), of "groupKey dims item"]
  obtain n where n: "obj_get acc (groupKey dims item) = VNum n" by auto
  then have "map_of acc (groupKey dims item) = Some (VNum n)"
    by (auto simp: obj_get_def split: option.splits)
  from all_numbers_fold_add [OF assms(1) this assms(2)] True show ?thesis
    by (simp add: totals_step_def Let_def)
next
  case False
  have "map_of (obj_set acc (groupKey dims item) (VNum 0)) (groupKey dims item) = Some (VNum 0)"
    by (simp add: map_of_obj_set)
  from all_numbers_fold_add [OF all_numbers_obj_set [OF assms(1)] this assms(2)] False
  show ?thesis
    by (simp add: totals_step_def Let_def)
qed

lemma fold_totals_step_map:
  assumes "all_numbers acc"
    and "\<forall>item \<in> set ds. \<forall>m \<in> set ms. numeric_or_missing (obj_get item m)"
  shows "map_of (fold (totals_step dims ms) ds acc) k
           = (if k \<in> groupKey dims ` set ds
              then Some (VNum (metric_number (obj_get acc k)
                               + sum_list (map (row_metrics_sum ms) (group_rows dims ds k))))
              else map_of acc k)"
  using assms
proof (induction ds arbitrary: acc)
  case Nil
  then show ?case by simp
next
  case (Cons item ds)
  let ?acc' = "totals_step dims ms item acc"
  have num: "all_numbers ?acc'"
    using Cons.prems by (simp add: all_numbers_totals_step)
  have step: "map_of ?acc' = (map_of acc)(groupKey dims item \<mapsto>
                VNum (metric_number (obj_get acc (groupKey dims item)) + row_metrics_sum ms item))"
    using Cons.prems by (simp add: totals_step_map)
  have get: "obj_get ?acc' k' = (if k' = groupKey dims item
               then VNum (metric_number (obj_get acc k') + row_metrics_sum ms item)
               else obj_get acc k')" for k'
    by (simp add: obj_get_def step)
  have none: "filter (\<lambda>r. groupKey dims r = k') ds = []" if "k' \<notin> groupKey dims ` set ds" for k'
    using that by (auto simp: filter_empty_conv)
  from Cons.IH [OF num] Cons.prems(2)
  have "map_of (fold (totals_step dims ms) ds ?acc') k
           = (if k \<in> groupKey dims ` set ds
              then Some (VNum (metric_number (obj_get ?acc' k)
                               + sum_list (map (row_metrics_sum ms) (group_rows dims ds k))))
              else map_of ?acc' k)"
    by simp
  then show ?case
    by (auto simp: get step group_rows_def none)
qed

lemma totalsMap_value:
  assumes "\<forall>item \<in> set ds. \<forall>m \<in> set ms. numeric_or_missing (obj_get item m)"
    and "item \<in> set ds"
  shows "obj_get (totalsMap dims ms ds) (groupKey dims item)
           = VNum (sum_list (map (row_metrics_sum ms) (group_rows dims ds (groupKey dims item))))"
proof -
  have "all_numbers []" by (simp add: all_numbers_def)
  from fold_totals_step_map [OF this assms(1), of dims "groupKey dims item"] assms(2)
  show ?thesis
    by (simp add: totalsMap_def obj_get_def)
qed

lemma group_total_all_metrics:
  assumes "\<forall>item \<in> set ds. \<forall>m \<in> set ms. numeric_or_missing (obj_get item m)"
    and "item \<in> set ds" and "m \<in> set ms"
  shows "obj_get (totalsItem dims ms (totalsMap dims ms ds) (groupKey dims item)) m
           = VNum (sum_list (map (row_metrics_sum ms) (group_rows dims ds (groupKey dims item))))"
  using assms by (simp add: totalsItem_metric totalsMap_value)

lemma group_total_single_metric:
  assumes "\<forall>item \<in> set ds. numeric_or_missing (obj_get item m)" and "item \<in> set ds"
  shows "obj_get (totalsItem dims [m] (totalsMap dims [m] ds) (groupKey dims item)) m
           = VNum (sum_list (map (\<lambda>r. metric_number (obj_get r m))
                                 (group_rows dims ds (groupKey dims item))))"
  using group_total_all_metrics [of ds "[m]" item m dims] assms
  by (simp add: row_metrics_sum_def [abs_def])

section \<open>What the grand total holds\<close>

text \<open>
  With numeric or missing metric values, distinct metric names and at least one row, each
  metric of the grand-total record is the sum of that metric over the row-total records,
  which is the sum over all rows of the row's sum over all configured metrics; the record
  has the metric names as its only keys. With one configured metric it is that metric's
  sum over all rows.
\<close>

lemma js_add_partial:
  "v = VUndefined \<or> (\<exists>a. v = VNum a) \<Longrightarrow>
     js_add (js_or v (VNum 0)) (VNum n) = VNum (metric_number v + n)"
  by (auto simp: js_add_def js_or_def)

lemma fold_sum_metrics_get:
  "distinct ms \<Longrightarrow>
     obj_get (fold (\<lambda>metric s. obj_set s metric
                      (js_add (js_or (obj_get s metric) (VNum 0)) (obj_get item metric))) ms s) k
       = (if k \<in> set ms then js_add (js_or (obj_get s k) (VNum 0)) (obj_get item k)
          else obj_get s k)"
  by (induction ms arbitrary: s) (auto simp: obj_get_obj_set)

lemma fold_sum_metrics_keys:
  "fst ` set (fold (\<lambda>metric s. obj_set s metric (h metric s)) ms s) = set ms \<union> fst ` set s"
  by (induction ms arbitrary: s) (auto simp: keys_obj_set)

lemma sumOfRowTotals_fold_get:
  assumes "distinct ms" and "k \<in> set ms"
    and "obj_get s k = VUndefined \<or> (\<exists>a. obj_get s k = VNum a)"
    and "\<forall>r \<in> set recs. \<exists>n. obj_get r k = VNum n"
  shows "obj_get (fold (\<lambda>item sum.
             fold (\<lambda>metric s. obj_set s metric
                     (js_add (js_or (obj_get s metric) (VNum 0)) (obj_get item metric))) ms sum)
           recs s) k
         = (if recs = [] then obj_get s k
            else VNum (metric_number (obj_get s k)
                       + sum_list (map (\<lambda>r. metric_number (obj_get r k)) recs)))"
  using assms(3,4)
proof (induction recs arbitrary: s)
  case Nil
  then show ?case by simp
next
  case (Cons r recs)
  let ?s' = "fold (\<lambda>metric s. obj_set s metric
                     (js_add (js_or (obj_get s metric) (VNum 0)) (obj_get r metric))) ms s"
  from Cons.prems(2) obtain n where n: "obj_get r k = VNum n" by auto
  have s': "obj_get ?s' k = VNum (metric_number (obj_get s k) + n)"
    using assms(1,2) Cons.prems(1) by (simp add: fold_sum_metrics_get n js_add_partial)
  from Cons.IH [of ?s'] s' Cons.prems(2)
  show ?case by (auto simp: n s')
qed

lemma sumOfRowTotals_get:
  assumes "distinct ms" and "m \<in> set ms" and "recs \<noteq> []"
    and "\<forall>r \<in> set recs. \<exists>n. obj_get r m = VNum n"
  shows "obj_get (sumOfRowTotals ms recs) m
           = VNum (sum_list (map (\<lambda>r. metric_number (obj_get r m)) recs))"
  using sumOfRowTotals_fold_get [OF assms(1,2) _ assms(4), of "[]"] assms(3)
  by (simp add: sumOfRowTotals_def obj_get_def)

lemma sumOfRowTotals_fold_keys:
  "fst ` set (fold (\<lambda>item sum.
             fold (\<lambda>metric s. obj_set s metric
                     (js_add (js_or (obj_get s metric) (VNum 0)) (obj_get item metric))) ms sum)
           recs s)
     = (if recs = [] then fst ` set s else set ms \<union> fst ` set s)"
  by (induction recs arbitrary: s) (auto simp: fold_sum_metrics_keys)

lemma sumOfRowTotals_keys:
  "fst ` set (sumOfRowTotals ms recs) = (if recs = [] then {} else set ms)"
  by (simp add: sumOfRowTotals_def sumOfRowTotals_fold_keys)

lemma distinct_obj_set: "distinct (map fst ob) \<Longrightarrow> distinct (map fst (obj_set ob k v))"
proof (induction ob)
  case Nil
  then show ?case by simp
next
  case (Cons p ob)
  have "fst ` set (obj_set ob k v) = insert k (fst ` set ob)" by (rule keys_obj_set)
  with Cons show ?case by auto
qed

lemma distinct_fold_obj_set:
  "distinct (map fst m0) \<Longrightarrow>
     distinct (map fst (fold (\<lambda>metric m. obj_set m key (h metric m)) ms m0))"
  by (induction ms arbitrary: m0) (auto simp: distinct_obj_set)

lemma distinct_totals_step:
  "distinct (map fst acc) \<Longrightarrow> distinct (map fst (totals_step dims ms item acc))"
  by (simp add: totals_step_def Let_def distinct_fold_obj_set distinct_obj_set)

lemma distinct_totalsMap: "distinct (map fst (totalsMap dims ms ds))"
proof -
  have "distinct (map fst acc) \<Longrightarrow> distinct (map fst (fold (totals_step dims ms) ds acc))" for acc
    by (induction ds arbitrary: acc) (auto simp: distinct_totals_step)
  then show ?thesis by (simp add: totalsMap_def)
qed

lemma distinct_obj_keys: "distinct (map fst ob) \<Longrightarrow> distinct (obj_keys ob)"
  by (auto simp: obj_keys_def)

lemma sum_list_if_absent:
  "k \<notin> set ks \<Longrightarrow> (\<Sum>k'\<leftarrow>ks. if k = k' then (v::int) else 0) = 0"
  by (induction ks) auto

lemma sum_list_if_key:
  "distinct ks \<Longrightarrow> k \<in> set ks \<Longrightarrow> (\<Sum>k'\<leftarrow>ks. if k = k' then (v::int) else 0) = v"
  by (induction ks) (auto simp: sum_list_if_absent)

lemma sum_list_groups:
  assumes "distinct ks" and "\<forall>x \<in> set xs. g x \<in> set ks"
  shows "(\<Sum>k\<leftarrow>ks. \<Sum>x\<leftarrow>filter (\<lambda>x. g x = k) xs. (f x :: int)) = (\<Sum>x\<leftarrow>xs. f x)"
  using assms(2)
proof (induction xs)
  case Nil
  then show ?case by simp
next
  case (Cons x xs)
  have "(\<Sum>k\<leftarrow>ks. \<Sum>y\<leftarrow>filter (\<lambda>y. g y = k) (x # xs). f y)
          = (\<Sum>k\<leftarrow>ks. (if g x = k then f x else 0) + (\<Sum>y\<leftarrow>filter (\<lambda>y. g y = k) xs. f y))"
    by (rule arg_cong [where f = sum_list]) auto
  also have "\<dots> = (\<Sum>k\<leftarrow>ks. if g x = k then f x else 0)
                    + (\<Sum>k\<leftarrow>ks. \<Sum>y\<leftarrow>filter (\<lambda>y. g y = k) xs. f y)"
    by (simp add: sum_list_addf)
  also have "\<dots> = f x + (\<Sum>y\<leftarrow>xs. f y)"
    using Cons assms(1) by (simp add: sum_list_if_key)
  finally show ?case by simp
qed

lemma totalsData_metric_values:
  assumes "\<forall>item \<in> set ds. \<forall>m \<in> set ms. numeric_or_missing (obj_get item m)"
    and "m \<in> set ms"
  shows "map (\<lambda>r. obj_get r m) (totalsData dims ms ds)
           = map (\<lambda>key. VNum (sum_list (map (row_metrics_sum ms) (group_rows dims ds key))))
                 (obj_keys (totalsMap dims ms ds))"
proof -
  have "obj_get (totalsItem dims ms (totalsMap dims ms ds) key) m
          = VNum (sum_list (map (row_metrics_sum ms) (group_rows dims ds key)))"
    if "key \<in> set (obj_keys (totalsMap dims ms ds))" for key
  proof -
    from that obtain item where "item \<in> set ds" "key = groupKey dims item"
      by (auto simp: set_obj_keys totalsMap_keys)
    with assms show ?thesis by (simp add: group_total_all_metrics)
  qed
  then show ?thesis by (simp add: totalsData_def Let_def)
qed

lemma grand_total_all_metrics:
  assumes "\<forall>item \<in> set ds. \<forall>m \<in> set ms. numeric_or_missing (obj_get item m)"
    and "distinct ms" and "m \<in> set ms" and "ds \<noteq> []"
  shows "obj_get (sumOfRowTotals ms (totalsData dims ms ds)) m
           = VNum (sum_list (map (\<lambda>r. metric_number (obj_get r m)) (totalsData dims ms ds)))"
    and "sum_list (map (\<lambda>r. metric_number (obj_get r m)) (totalsData dims ms ds))
           = sum_list (map (row_metrics_sum ms) ds)"
    and "fst ` set (sumOfRowTotals ms (totalsData dims ms ds)) = set ms"
proof -
  let ?tm = "totalsMap dims ms ds"
  have vals: "map (\<lambda>r. obj_get r m) (totalsData dims ms ds)
           = map (\<lambda>key. VNum (sum_list (map (row_metrics_sum ms) (group_rows dims ds key))))
                 (obj_keys ?tm)"
    using assms(1,3) by (rule totalsData_metric_values)
  have ne: "totalsData dims ms ds \<noteq> []"
  proof -
    from assms(4) have "groupKey dims ` set ds \<noteq> {}" by simp
    then have "set (obj_keys ?tm) \<noteq> {}" by (simp add: set_obj_keys totalsMap_keys)
    then show ?thesis by (auto simp: totalsData_def Let_def)
  qed
  have num: "\<forall>r \<in> set (totalsData dims ms ds). \<exists>n. obj_get r m = VNum n"
  proof
    fix r assume "r \<in> set (totalsData dims ms ds)"
    then have "obj_get r m \<in> set (map (\<lambda>r. obj_get r m) (totalsData dims ms ds))" by simp
    then show "\<exists>n. obj_get r m = VNum n" unfolding vals by auto
  qed
  from sumOfRowTotals_get [OF assms(2,3) ne num]
  show "obj_get (sumOfRowTotals ms (totalsData dims ms ds)) m
           = VNum (sum_list (map (\<lambda>r. metric_number (obj_get r m)) (totalsData dims ms ds)))" .
  have "map (\<lambda>r. metric_number (obj_get r m)) (totalsData dims ms ds)
          = map metric_number (map (\<lambda>r. obj_get r m) (totalsData dims ms ds))"
    by simp
  also have "\<dots> = map (\<lambda>key. sum_list (map (row_metrics_sum ms) (group_rows dims ds key)))
                      (obj_keys ?tm)"
    unfolding vals by simp
  finally have "sum_list (map (\<lambda>r. metric_number (obj_get r m)) (totalsData dims ms ds))
          = (\<Sum>key\<leftarrow>obj_keys ?tm. \<Sum>item\<leftarrow>filter (\<lambda>item. groupKey dims item = key) ds.
               row_metrics_sum ms item)"
    by (simp add: group_rows_def)
  also have "\<dots> = sum_list (map (row_metrics_sum ms) ds)"
    by (rule sum_list_groups)
       (auto simp: distinct_obj_keys distinct_totalsMap set_obj_keys totalsMap_keys)
  finally show "sum_list (map (\<lambda>r. metric_number (obj_get r m)) (totalsData dims ms ds))
           = sum_list (map (row_metrics_sum ms) ds)" .
  from ne show "fst ` set (sumOfRowTotals ms (totalsData dims ms ds)) = set ms"
    by (simp add: sumOfRowTotals_keys)
qed

lemma grand_total_single_metric:
  assumes "\<forall>item \<in> set ds. numeric_or_missing (obj_get item m)" and "ds \<noteq> []"
  shows "obj_get (sumOfRowTotals [m] (totalsData dims [m] ds)) m
           = VNum (sum_list (map (\<lambda>r. metric_number (obj_get r m)) ds))"
  using grand_total_all_metrics(1,2) [of ds "[m]" m dims] assms
  by (simp add: row_metrics_sum_def [abs_def])

text \<open>The specification's scenario: three rows, one dimension, one metric.\<close>

lemma spec_scenario:
  "totalsData [''region''] [''qty'']
     [[(''region'', VStr ''A''), (''qty'', VNum 3)],
      [(''region'', VStr ''A''), (''qty'', VNum 5)],
      [(''region'', VStr ''B''), (''qty'', VNum 2)]]
     = [[(''region'', VStr ''A''), (''qty'', VNum 8)], [(''region'', VStr ''B''), (''qty'', VNum 2)]]
   \<and> sumOfRowTotals [''qty'']
        [[(''region'', VStr ''A''), (''qty'', VNum 8)], [(''region'', VStr ''B''), (''qty'', VNum 2)]]
       = [(''qty'', VNum 10)]"
  by code_simp

end
